theory Spec2Isabelle
  imports Main "HOL-Library.Word" "HOL-Library.Sublist"
begin

section \<open>Data model\<close>

text \<open>
  The resolver of \<^verbatim>\<open>ipfs-uniform-resolve\<close> is one factory function that closes over three
  collaborators (\<^verbatim>\<open>block\<close>, \<^verbatim>\<open>name\<close>, \<^verbatim>\<open>decoder\<close>) and returns \<^verbatim>\<open>resolveIpns\<close> and
  \<^verbatim>\<open>resolve\<close>. The collaborators, the identifier library and the JavaScript built-ins
  that the two methods call are the fields of the record \<open>env\<close> below; everything the
  source itself computes is a definition.
\<close>

type_synonym bytes = "8 word list"

text \<open>\<^verbatim>\<open>cid.multihash.code\<close> and the digest.\<close>

record MultihashDigest =
  hcode :: nat
  digest :: bytes

text \<open>The class \<^verbatim>\<open>CID\<close> of multiformats: \<^verbatim>\<open>cid.code\<close> is the codec.\<close>

record CID =
  version :: nat
  code :: nat
  multihash :: MultihashDigest

text \<open>
  A decoded value of a "regular" codec, as JavaScript holds it: \<^verbatim>\<open>null\<close>, a boolean, a
  number, a string, a \<^verbatim>\<open>Uint8Array\<close>, a \<^verbatim>\<open>CID\<close>, an array, or a plain object (its entries
  in order). Numbers are opaque to the resolver. \<open>Host\<close> stands for a value that is no
  decoded data but can be reached by indexing, such as a method found on a built-in
  prototype; it is named by the property that produced it.
\<close>

datatype jsval =
    Null
  | Bool bool
  | Num int
  | Str string
  | Bytes bytes
  | Link CID
  | Arr "jsval list"
  | Obj "(string \<times> jsval) list"
  | Host string

text \<open>\<^verbatim>\<open>pb.PBLink\<close> and \<^verbatim>\<open>pb.PBNode\<close> of \<^verbatim>\<open>@ipld/dag-pb\<close>.\<close>

record PBLink =
  Name :: "string option"
  Tsize :: "nat option"
  Hash :: CID

record PBNode =
  Data :: "bytes option"
  Links :: "PBLink list"

text \<open>
  The value of a decoded block. The source reads \<^verbatim>\<open>decoded.value as pb.PBNode\<close> when the
  codec is DAG-PB and walks it as a plain value otherwise.
\<close>

datatype dvalue = PBValue PBNode | IPLDValue jsval

text \<open>The decoded block: \<^verbatim>\<open>decoded.cid\<close>, \<^verbatim>\<open>decoded.value\<close>, \<^verbatim>\<open>decoded.bytes\<close>.\<close>

record Block =
  b_cid :: CID
  b_value :: dvalue
  b_bytes :: bytes

text \<open>The class \<^verbatim>\<open>DeadEndError\<close> of \<^verbatim>\<open>error.ts\<close>: the message and the three fields.\<close>

record DeadEndError =
  de_msg :: string
  de_cid :: CID
  de_at :: string
  de_remaining :: string

text \<open>
  What can be thrown: the two built-in error classes the source can raise, its own
  \<open>DeadEnd\<close>, and \<open>Failure\<close> for an error of a collaborator or of \<^verbatim>\<open>CID.parse\<close>.
\<close>

datatype exn =
    TypeError string
  | SyntaxError string
  | DeadEnd DeadEndError
  | Failure string

text \<open>\<^verbatim>\<open>options?: { followPb?: boolean; followIpld?: boolean }\<close>\<close>

record options =
  followPb :: "bool option"
  followIpld :: "bool option"

text \<open>\<^verbatim>\<open>{ value, cid, block }\<close>, the result of \<^verbatim>\<open>resolve\<close>.\<close>

record result =
  r_value :: dvalue
  r_cid :: CID
  r_block :: Block

text \<open>
  The environment.
  \<^item> \<open>block_get\<close> is \<^verbatim>\<open>block.get(cid)\<close>.
  \<^item> \<open>decode_pb\<close> and \<open>decode_ipld\<close> are \<^verbatim>\<open>decoder.decode({codec, hasher, bytes})\<close>: the
    registry's decoder for the DAG-PB codec (by hasher) yields a \<open>PBNode\<close>, as the type
    assertion of the source says; the decoder of any other codec yields a plain value.
    Both return the identifier the registry derives.
  \<^item> \<open>name_resolve\<close> is \<^verbatim>\<open>name.resolve(addr, {recursive, timeout})\<close>: the strings the
    asynchronous sequence emits and, when the iteration then fails, its error.
  \<^item> \<open>CID_parse\<close> is \<^verbatim>\<open>CID.parse\<close> on a string and \<open>CID_toString\<close> is \<^verbatim>\<open>cid.toString()\<close>.
  \<^item> \<open>JSON_parse_key\<close> is \<^verbatim>\<open>JSON.parse(seg)\<close> followed by the conversion to a property
    key that indexing applies to the parsed value: the key, or the \<^verbatim>\<open>SyntaxError\<close> that
    \<^verbatim>\<open>JSON.parse\<close> throws, or the \<^verbatim>\<open>TypeError\<close> that the conversion throws (a parsed object
    whose own \<^verbatim>\<open>toString\<close> and \<^verbatim>\<open>valueOf\<close> are no functions), each with the message the
    engine gives it.
  \<^item> \<open>builtin_property\<close> is \<^verbatim>\<open>v[k]\<close> for every property that is not an entry of a
    decoded map or sequence: what the built-in prototypes provide, the length and the
    characters of a string, the elements of a byte array. \<open>None\<close> is \<^verbatim>\<open>undefined\<close>.
\<close>

datatype parsed_key = Key string | ThrowsSyntaxError string | ThrowsTypeError string

record env =
  block_get :: "CID \<Rightarrow> exn + bytes"
  decode_pb :: "nat \<Rightarrow> bytes \<Rightarrow> exn + CID \<times> PBNode"
  decode_ipld :: "nat \<Rightarrow> nat \<Rightarrow> bytes \<Rightarrow> exn + CID \<times> jsval"
  name_resolve :: "string \<Rightarrow> bool \<Rightarrow> nat option \<Rightarrow> string list \<times> exn option"
  CID_parse :: "string \<Rightarrow> exn + CID"
  CID_toString :: "CID \<Rightarrow> string"
  JSON_parse_key :: "string \<Rightarrow> parsed_key"
  builtin_property :: "jsval \<Rightarrow> string \<Rightarrow> jsval option"

text \<open>The calls made on the Block Source and the Decoder Registry, in order.\<close>

datatype call = Get CID | Decode nat nat bytes

text \<open>
  One activation of \<^verbatim>\<open>resolve\<close> ends by returning, by throwing, or by
  \<^verbatim>\<open>return await this.resolve(c, p, options)\<close>.
\<close>

datatype outcome = Return result | Throw exn | Recurse CID string "options option"

section \<open>Constants and string helpers\<close>

definition kLibp2pKeyCodec :: nat where
  "kLibp2pKeyCodec = 0x72"

text \<open>\<^verbatim>\<open>pb.code\<close> of \<^verbatim>\<open>@ipld/dag-pb\<close>.\<close>

definition pb_code :: nat where
  "pb_code = 0x70"

definition slash :: char where
  "slash = CHR ''/''"

definition quoted :: "string \<Rightarrow> string" where
  "quoted s = CHR 0x27 # s @ [CHR 0x27]"

text \<open>
  \<^verbatim>\<open>path.split(/\/+/)\<close>: the pieces between the maximal runs of slashes. A path that
  starts or ends with a slash gives an empty first or last piece, and the empty path
  gives one empty piece.
\<close>

function split_slashes :: "string \<Rightarrow> string list" where
  "split_slashes s =
     (case dropWhile (\<lambda>c. c \<noteq> slash) s of
        [] \<Rightarrow> [s]
      | _ # _ \<Rightarrow>
          takeWhile (\<lambda>c. c \<noteq> slash) s #
          split_slashes (dropWhile (\<lambda>c. c = slash) (dropWhile (\<lambda>c. c \<noteq> slash) s)))"
  by pat_completeness auto
termination
proof (relation "measure length")
  show "wf (measure length)" by simp
next
  fix s :: string and x xs
  assume a: "dropWhile (\<lambda>c. c \<noteq> slash) s = x # xs"
  have "x = slash"
    using hd_dropWhile [of "\<lambda>c. c \<noteq> slash" s] a by simp
  then have "length (dropWhile (\<lambda>c. c = slash) (x # xs)) \<le> length xs"
    by (simp add: length_dropWhile_le)
  moreover have "length (x # xs) \<le> length s"
    using length_dropWhile_le [of "\<lambda>c. c \<noteq> slash" s] a by simp
  ultimately show
    "(dropWhile (\<lambda>c. c = slash) (dropWhile (\<lambda>c. c \<noteq> slash) s), s) \<in> measure length"
    using a by simp
qed

declare split_slashes.simps [simp del]

text \<open>\<^verbatim>\<open>path.split(/\/+/).filter((s) => s.length)\<close>\<close>

definition segments :: "string \<Rightarrow> string list" where
  "segments path = filter (\<lambda>s. length s \<noteq> 0) (split_slashes path)"

text \<open>\<^verbatim>\<open>xs.join("/")\<close>\<close>

fun join_slash :: "string list \<Rightarrow> string" where
  "join_slash [] = []"
| "join_slash [x] = x"
| "join_slash (x # y # ys) = x @ slash # join_slash (y # ys)"

text \<open>
  \<^verbatim>\<open>xs.reduce((acc, x) => acc + "/" + x)\<close>: with no initial value, \<^verbatim>\<open>reduce\<close> on an empty
  array throws a \<^verbatim>\<open>TypeError\<close>.
\<close>

definition reduce_slash :: "string list \<Rightarrow> exn + string" where
  "reduce_slash xs =
     (case xs of
        [] \<Rightarrow> Inl (TypeError ''Reduce of empty array with no initial value'')
      | x # rest \<Rightarrow> Inr (foldl (\<lambda>acc x. acc @ slash # x) x rest))"

section \<open>Indexing a decoded value\<close>

text \<open>
  A canonical array index: \<^verbatim>\<open>"0"\<close> or decimal digits that do not start with \<^verbatim>\<open>0\<close>.
\<close>

definition digit_val :: "char \<Rightarrow> nat" where
  "digit_val c = of_char c - of_char CHR ''0''"

definition is_digit :: "char \<Rightarrow> bool" where
  "is_digit c = (of_char CHR ''0'' \<le> (of_char c :: nat) \<and> (of_char c :: nat) \<le> of_char CHR ''9'')"

definition array_index :: "string \<Rightarrow> nat option" where
  "array_index k =
     (if k = [] \<or> \<not> list_all is_digit k \<or> (length k > 1 \<and> hd k = CHR ''0'') then None
      else Some (foldl (\<lambda>n c. 10 * n + digit_val c) 0 k))"

text \<open>
  \<^verbatim>\<open>node[k]\<close> for a property key \<open>k\<close>. Reading a property of \<^verbatim>\<open>null\<close> throws a
  \<^verbatim>\<open>TypeError\<close>; an object yields its entry for \<open>k\<close>, an array its element at the index
  \<open>k\<close> denotes; anything else is left to \<open>builtin_property\<close>.
\<close>

fun js_get :: "env \<Rightarrow> jsval \<Rightarrow> string \<Rightarrow> exn + jsval option" where
  "js_get env Null k = Inl (TypeError (''Cannot read properties of null (reading '' @ quoted k @ '')''))"
| "js_get env (Obj kvs) k =
     Inr (case map_of kvs k of Some v \<Rightarrow> Some v | None \<Rightarrow> builtin_property env (Obj kvs) k)"
| "js_get env (Arr xs) k =
     Inr (case array_index k of
            Some n \<Rightarrow> if n < length xs then Some (xs ! n) else builtin_property env (Arr xs) k
          | None \<Rightarrow> builtin_property env (Arr xs) k)"
| "js_get env v k = Inr (builtin_property env v k)"

text \<open>
  The indexing of the loop body:
  \<^verbatim>\<open>if (Array.isArray(node)) node = node[JSON.parse(seg)]; else node = node[seg];\<close>
\<close>

definition index_node :: "env \<Rightarrow> jsval \<Rightarrow> string \<Rightarrow> exn + jsval option" where
  "index_node env node seg =
     (case node of
        Arr xs \<Rightarrow>
          (case JSON_parse_key env seg of
             ThrowsSyntaxError m \<Rightarrow> Inl (SyntaxError m)
           | ThrowsTypeError m \<Rightarrow> Inl (TypeError m)
           | Key k \<Rightarrow> js_get env node k)
      | _ \<Rightarrow> js_get env node seg)"

text \<open>\<^verbatim>\<open>CID.asCID(node)\<close>: the identifier when the value is one, \<^verbatim>\<open>null\<close> otherwise.\<close>

fun CID_asCID :: "jsval \<Rightarrow> CID option" where
  "CID_asCID (Link c) = Some c"
| "CID_asCID _ = None"

text \<open>
  \<^verbatim>\<open>try { cidStr = CID.parse(node) } catch {}\<close>: \<^verbatim>\<open>CID.parse\<close> accepts text only, and
  whatever it throws is swallowed.
\<close>

fun try_parse :: "env \<Rightarrow> jsval \<Rightarrow> CID option" where
  "try_parse env (Str s) = (case CID_parse env s of Inl _ \<Rightarrow> None | Inr c \<Rightarrow> Some c)"
| "try_parse env _ = None"

text \<open>The identifier the loop body detects in the new cursor, \<^verbatim>\<open>asCID\<close> first.\<close>

definition embedded_cid :: "env \<Rightarrow> jsval \<Rightarrow> CID option" where
  "embedded_cid env v = (case CID_asCID v of Some c \<Rightarrow> Some c | None \<Rightarrow> try_parse env v)"

section \<open>resolve\<close>

definition dead_end_prefix :: "env \<Rightarrow> CID \<Rightarrow> string" where
  "dead_end_prefix env cid = ''Resolution hit dead end at CID '' @ CID_toString env cid @ '': ''"

definition msg_pb_disabled :: "env \<Rightarrow> CID \<Rightarrow> string" where
  "msg_pb_disabled env cid =
     dead_end_prefix env cid @ ''node is a DAG-PB node, but '' @ quoted ''followPb'' @
     '' is set to '' @ quoted ''false''"

definition msg_no_link :: "env \<Rightarrow> CID \<Rightarrow> string \<Rightarrow> string" where
  "msg_no_link env cid cur = dead_end_prefix env cid @ ''no link to '' @ cur"

definition msg_ipld_disabled :: "env \<Rightarrow> CID \<Rightarrow> string" where
  "msg_ipld_disabled env cid =
     dead_end_prefix env cid @ ''node is an IPLD node, but '' @ quoted ''followIpld'' @
     '' is set to '' @ quoted ''false''"

definition msg_no_property :: "env \<Rightarrow> CID \<Rightarrow> string \<Rightarrow> string" where
  "msg_no_property env cid consumed =
     dead_end_prefix env cid @ ''object has no property at path /'' @ consumed"

definition msg_libp2p_key :: string where
  "msg_libp2p_key =
     ''Received CID with codec for '' @ quoted ''libp2p-key'' @ ''. '' @
     ''If you need to resolve IPNS into a CID, call resolveIpns() first''"

text \<open>\<^verbatim>\<open>new DeadEndError(msg, cid, cur, rest.join("/"))\<close>\<close>

definition dead_end :: "string \<Rightarrow> CID \<Rightarrow> string \<Rightarrow> string list \<Rightarrow> exn" where
  "dead_end msg cid cur rest =
     DeadEnd \<lparr>de_msg = msg, de_cid = cid, de_at = cur, de_remaining = join_slash rest\<rparr>"

text \<open>\<^verbatim>\<open>options?.followPb === false\<close> and \<^verbatim>\<open>options?.followIpld === false\<close>\<close>

definition followPb_is_false :: "options option \<Rightarrow> bool" where
  "followPb_is_false opts = (case opts of None \<Rightarrow> False | Some o' \<Rightarrow> followPb o' = Some False)"

definition followIpld_is_false :: "options option \<Rightarrow> bool" where
  "followIpld_is_false opts = (case opts of None \<Rightarrow> False | Some o' \<Rightarrow> followIpld o' = Some False)"

text \<open>
  The loop \<^verbatim>\<open>for (const [i, seg] of segs.entries())\<close> over the decoded value, from
  position \<open>i\<close> with the segments still to visit, and the \<^verbatim>\<open>return\<close> after it. The
  message of the dead end is built before the error is constructed, so a throwing
  \<^verbatim>\<open>reduce\<close> is what the caller sees.
\<close>

fun walk ::
  "env \<Rightarrow> CID \<Rightarrow> Block \<Rightarrow> string list \<Rightarrow> options option \<Rightarrow> jsval \<Rightarrow> nat \<Rightarrow> string list \<Rightarrow> outcome"
where
  "walk env cid decoded segs opts node i [] =
     Return \<lparr>r_value = IPLDValue node, r_cid = cid, r_block = decoded\<rparr>"
| "walk env cid decoded segs opts node i (seg # todo) =
     (case index_node env node seg of
        Inl e \<Rightarrow> Throw e
      | Inr None \<Rightarrow>
          (case reduce_slash (take i segs) of
             Inl e \<Rightarrow> Throw e
           | Inr consumed \<Rightarrow>
               Throw (dead_end (msg_no_property env cid consumed) cid (hd segs) (tl segs)))
      | Inr (Some v) \<Rightarrow>
          (case CID_asCID v of
             Some asCid \<Rightarrow> Recurse asCid (join_slash (drop i segs)) opts
           | None \<Rightarrow>
               (case try_parse env v of
                  Some cidStr \<Rightarrow> Recurse cidStr (join_slash (drop i segs)) opts
                | None \<Rightarrow> walk env cid decoded segs opts v (Suc i) todo)))"

text \<open>\<^verbatim>\<open>decoder.decode({ codec: cid.code, hasher: cid.multihash.code, bytes })\<close>\<close>

definition decode :: "env \<Rightarrow> nat \<Rightarrow> nat \<Rightarrow> bytes \<Rightarrow> exn + Block" where
  "decode env codec hasher bs =
     (if codec = pb_code then
        (case decode_pb env hasher bs of
           Inl e \<Rightarrow> Inl e
         | Inr (c, n) \<Rightarrow> Inr \<lparr>b_cid = c, b_value = PBValue n, b_bytes = bs\<rparr>)
      else
        (case decode_ipld env codec hasher bs of
           Inl e \<Rightarrow> Inl e
         | Inr (c, v) \<Rightarrow> Inr \<lparr>b_cid = c, b_value = IPLDValue v, b_bytes = bs\<rparr>))"

text \<open>The DAG-PB branch of \<^verbatim>\<open>resolve\<close>, after the check of \<^verbatim>\<open>followPb\<close>.\<close>

definition follow_link ::
  "env \<Rightarrow> CID \<Rightarrow> PBNode \<Rightarrow> string \<Rightarrow> string list \<Rightarrow> options option \<Rightarrow> outcome"
where
  "follow_link env cid node cur rest opts =
     (case find (\<lambda>n. Name n = Some cur) (Links node) of
        Some child \<Rightarrow> Recurse (Hash child) (join_slash rest) opts
      | None \<Rightarrow> Throw (dead_end (msg_no_link env cid cur) cid cur rest))"

text \<open>
  What \<^verbatim>\<open>resolve\<close> does with the decoded block. A DAG-PB block always holds a
  \<open>PBValue\<close> and any other block an \<open>IPLDValue\<close> (see \<open>decode\<close>); the two remaining
  combinations cannot arise and are given the \<^verbatim>\<open>TypeError\<close> of a failed member access.
\<close>

definition traverse :: "env \<Rightarrow> CID \<Rightarrow> Block \<Rightarrow> string \<Rightarrow> options option \<Rightarrow> outcome" where
  "traverse env cid decoded path opts =
     (case segments path of
        [] \<Rightarrow> Return \<lparr>r_value = b_value decoded, r_cid = b_cid decoded, r_block = decoded\<rparr>
      | cur # rest \<Rightarrow>
          if code cid = pb_code then
            (if followPb_is_false opts then
               Throw (dead_end (msg_pb_disabled env cid) cid cur rest)
             else
               (case b_value decoded of
                  PBValue node \<Rightarrow> follow_link env cid node cur rest opts
                | IPLDValue _ \<Rightarrow> Throw (TypeError ''not a PBNode'')))
          else
            (if followIpld_is_false opts then
               Throw (dead_end (msg_ipld_disabled env cid) cid cur rest)
             else
               (case b_value decoded of
                  IPLDValue node \<Rightarrow> walk env cid decoded (cur # rest) opts node 0 (cur # rest)
                | PBValue _ \<Rightarrow> Throw (TypeError ''not a plain value''))))"

text \<open>
  One activation of \<^verbatim>\<open>resolve\<close>: the calls it makes on the collaborators and how it
  ends.
\<close>

definition resolve_step ::
  "env \<Rightarrow> CID \<Rightarrow> string \<Rightarrow> options option \<Rightarrow> call list \<times> outcome"
where
  "resolve_step env cid path opts =
     (if code cid = kLibp2pKeyCodec then
        ([], Throw (TypeError msg_libp2p_key))
      else
        (case block_get env cid of
           Inl e \<Rightarrow> ([Get cid], Throw e)
         | Inr bs \<Rightarrow>
             (case decode env (code cid) (hcode (multihash cid)) bs of
                Inl e \<Rightarrow> ([Get cid, Decode (code cid) (hcode (multihash cid)) bs], Throw e)
              | Inr decoded \<Rightarrow>
                  ([Get cid, Decode (code cid) (hcode (multihash cid)) bs],
                   traverse env cid decoded path opts))))"

text \<open>
  \<^verbatim>\<open>resolve\<close> itself. The recursion follows the block graph and need not end, so the
  model counts activations: \<open>None\<close> when the given number does not suffice, else the
  calls made and the value returned or the error thrown.
\<close>

fun resolve ::
  "nat \<Rightarrow> env \<Rightarrow> CID \<Rightarrow> string \<Rightarrow> options option \<Rightarrow> (call list \<times> (exn + result)) option"
where
  "resolve 0 env cid path opts = None"
| "resolve (Suc n) env cid path opts =
     (case resolve_step env cid path opts of
        (cs, Return r) \<Rightarrow> Some (cs, Inr r)
      | (cs, Throw e) \<Rightarrow> Some (cs, Inl e)
      | (cs, Recurse c p o') \<Rightarrow>
          (case resolve n env c p o' of
             None \<Rightarrow> None
           | Some (cs', r) \<Rightarrow> Some (cs @ cs', r)))"

section \<open>resolveIpns\<close>

text \<open>\<^verbatim>\<open>let r = null; for await (const i of ...) r = i;\<close>\<close>

definition last_emitted :: "string list \<Rightarrow> string option" where
  "last_emitted xs = foldl (\<lambda>r i. Some i) None xs"

text \<open>
  \<^verbatim>\<open>resolveIpns(cid, timeout)\<close>; the argument is a \<^verbatim>\<open>CID\<close> (\<open>Inl\<close>) or a string (\<open>Inr\<close>).
  \<^verbatim>\<open>r.slice(6)\<close> on \<^verbatim>\<open>null\<close> throws a \<^verbatim>\<open>TypeError\<close>.
\<close>

definition msg_null_slice :: string where
  "msg_null_slice = ''Cannot read properties of null (reading '' @ quoted ''slice'' @ '')''"

definition resolveIpns :: "env \<Rightarrow> CID + string \<Rightarrow> nat option \<Rightarrow> exn + CID" where
  "resolveIpns env cid timeout =
     (let ipnsAddr = ''/ipns/'' @ (case cid of Inr s \<Rightarrow> s | Inl c \<Rightarrow> CID_toString env c) in
      case name_resolve env ipnsAddr True timeout of
        (emitted, Some e) \<Rightarrow> Inl e
      | (emitted, None) \<Rightarrow>
          (case last_emitted emitted of
             None \<Rightarrow> Inl (TypeError msg_null_slice)
           | Some r \<Rightarrow> CID_parse env (drop 6 r)))"

section \<open>Auxiliary notions for the statements\<close>

text \<open>
  \<open>cursor env root consumed = Some node\<close>: the loop of \<open>walk\<close>, started at \<open>root\<close>, visits
  the segments \<open>consumed\<close> one after the other without throwing and without detecting an
  identifier, and then holds \<open>node\<close>.
\<close>

fun cursor :: "env \<Rightarrow> jsval \<Rightarrow> string list \<Rightarrow> jsval option" where
  "cursor env node [] = Some node"
| "cursor env node (seg # todo) =
     (case index_node env node seg of
        Inr (Some v) \<Rightarrow> (case embedded_cid env v of None \<Rightarrow> cursor env v todo | Some _ \<Rightarrow> None)
      | _ \<Rightarrow> None)"

text \<open>Segments as \<open>segments\<close> produces them: not empty and free of slashes.\<close>

definition clean :: "string list \<Rightarrow> bool" where
  "clean xs = list_all (\<lambda>x. x \<noteq> [] \<and> slash \<notin> set x) xs"

text \<open>The value a finished run of \<open>resolve\<close> returned, if it returned one.\<close>

definition returned_value :: "(call list \<times> (exn + result)) option \<Rightarrow> dvalue option" where
  "returned_value run = (case run of Some (cs, Inr r) \<Rightarrow> Some (r_value r) | _ \<Rightarrow> None)"

section \<open>A small block graph\<close>

text \<open>
  Three blocks for evaluating the definitions: a DAG-JSON block \<open>ex_root\<close> that embeds the
  identifier of \<open>ex_target\<close> as text under \<^verbatim>\<open>link\<close> and as a link under \<^verbatim>\<open>a/b/c\<close>, the
  DAG-JSON block \<open>ex_target\<close>, and a DAG-PB directory \<open>ex_dir\<close> with two links of the same
  name. \<open>ex_key\<close> is an identifier with the \<^verbatim>\<open>libp2p-key\<close> codec.
\<close>

definition ex_root :: CID where
  "ex_root = \<lparr>version = 1, code = 0x0129, multihash = \<lparr>hcode = 0x12, digest = [1]\<rparr>\<rparr>"

definition ex_target :: CID where
  "ex_target = \<lparr>version = 1, code = 0x0129, multihash = \<lparr>hcode = 0x12, digest = [2]\<rparr>\<rparr>"

definition ex_dir :: CID where
  "ex_dir = \<lparr>version = 1, code = 0x70, multihash = \<lparr>hcode = 0x12, digest = [3]\<rparr>\<rparr>"

definition ex_key :: CID where
  "ex_key = \<lparr>version = 1, code = 0x72, multihash = \<lparr>hcode = 0x00, digest = [4]\<rparr>\<rparr>"

definition ex_root_value :: jsval where
  "ex_root_value =
     Obj [(''link'', Str ''bafytarget''),
          (''a'', Obj [(''b'', Obj [(''c'', Link ex_target)])]),
          (''n'', Null)]"

definition ex_target_value :: jsval where
  "ex_target_value =
     Obj [(''link'', Obj [(''extra'', Num 7)]),
          (''extra'', Num 5),
          (''c'', Obj [(''d'', Num 9)])]"

definition ex_dir_node :: PBNode where
  "ex_dir_node =
     \<lparr>Data = None,
      Links = [\<lparr>Name = None, Tsize = Some 1, Hash = ex_key\<rparr>,
               \<lparr>Name = Some ''file.json'', Tsize = Some 10, Hash = ex_target\<rparr>,
               \<lparr>Name = Some ''file.json'', Tsize = Some 20, Hash = ex_root\<rparr>]\<rparr>"

text \<open>
  The environment of the examples. Its JavaScript built-ins are the plainest possible:
  \<^verbatim>\<open>JSON.parse\<close> accepts canonical decimal indices only and no value has a built-in
  property. The examples apply no segment to an array and use no segment that names a
  built-in property, so on them this agrees with every JavaScript engine.
\<close>

definition ex_env :: env where
  "ex_env =
     \<lparr>block_get = (\<lambda>c.
        if c = ex_root then Inr [1]
        else if c = ex_target then Inr [2]
        else if c = ex_dir then Inr [3]
        else Inl (Failure ''block not found'')),
      decode_pb = (\<lambda>h bs.
        if bs = [3] then Inr (ex_dir, ex_dir_node) else Inl (Failure ''cannot decode'')),
      decode_ipld = (\<lambda>c h bs.
        if bs = [1] then Inr (ex_root, ex_root_value)
        else if bs = [2] then Inr (ex_target, ex_target_value)
        else Inl (Failure ''cannot decode'')),
      name_resolve = (\<lambda>addr recursive timeout.
        if addr = ''/ipns/ipfs.io'' then ([''/ipns/intermediate'', ''/ipns/bafytarget''], None)
        else ([], Some (Failure ''could not resolve name''))),
      CID_parse = (\<lambda>s.
        if s = ''bafytarget'' then Inr ex_target else Inl (Failure ''invalid CID'')),
      CID_toString = (\<lambda>c.
        if c = ex_target then ''bafytarget''
        else if c = ex_root then ''bafyroot''
        else if c = ex_dir then ''bafydir''
        else ''k51key''),
      JSON_parse_key = (\<lambda>seg.
        if array_index seg = None then ThrowsSyntaxError ''Unexpected token in JSON''
        else Key seg),
      builtin_property = (\<lambda>v k. None)\<rparr>"

section \<open>Splitting and joining paths\<close>

lemma split_slashes_no_slash: "slash \<notin> set x \<Longrightarrow> split_slashes x = [x]"
proof -
  assume "slash \<notin> set x"
  then have "dropWhile (\<lambda>c. c \<noteq> slash) x = []"
    by (auto simp: dropWhile_eq_Nil_conv)
  then show ?thesis
    by (subst split_slashes.simps) (simp only: list.case)
qed

lemma split_slashes_piece:
  assumes "slash \<notin> set x"
  shows "split_slashes (x @ slash # r) = x # split_slashes (dropWhile (\<lambda>c. c = slash) r)"
proof -
  have d: "dropWhile (\<lambda>c. c \<noteq> slash) (x @ slash # r) = slash # r"
    using assms by (subst dropWhile_append2) auto
  have t: "takeWhile (\<lambda>c. c \<noteq> slash) (x @ slash # r) = x"
    using assms by (subst takeWhile_append2) auto
  show ?thesis
    by (subst split_slashes.simps) (simp add: d t)
qed

lemma split_slashes_pieces: "x \<in> set (split_slashes s) \<Longrightarrow> slash \<notin> set x"
proof (induction s arbitrary: x rule: split_slashes.induct)
  case (1 s)
  show ?case
  proof (cases "dropWhile (\<lambda>c. c \<noteq> slash) s")
    case Nil
    then have "slash \<notin> set s"
      by (auto simp: dropWhile_eq_Nil_conv)
    moreover from "1.prems" have "x \<in> set [s]"
      by (subst (asm) split_slashes.simps) (simp only: Nil list.case)
    then have "x = s" by simp
    ultimately show ?thesis by simp
  next
    case (Cons y ys)
    from "1.prems" have
      "x \<in> set (takeWhile (\<lambda>c. c \<noteq> slash) s #
         split_slashes (dropWhile (\<lambda>c. c = slash) (dropWhile (\<lambda>c. c \<noteq> slash) s)))"
      by (subst (asm) split_slashes.simps) (simp only: Cons list.case)
    then have
      "x = takeWhile (\<lambda>c. c \<noteq> slash) s \<or>
       x \<in> set (split_slashes (dropWhile (\<lambda>c. c = slash) (dropWhile (\<lambda>c. c \<noteq> slash) s)))"
      by simp
    then show ?thesis
    proof
      assume "x = takeWhile (\<lambda>c. c \<noteq> slash) s"
      then show ?thesis
        by (auto dest: set_takeWhileD)
    next
      assume "x \<in> set (split_slashes (dropWhile (\<lambda>c. c = slash) (dropWhile (\<lambda>c. c \<noteq> slash) s)))"
      then show ?thesis
        using "1.IH" Cons by blast
    qed
  qed
qed

lemma segments_clean: "clean (segments p)"
  by (auto simp: clean_def segments_def list_all_iff dest: split_slashes_pieces)

lemma clean_drop: "clean xs \<Longrightarrow> clean (drop i xs)"
  by (auto simp: clean_def list_all_iff dest: in_set_dropD)

lemma join_slash_starts:
  "clean (y # ys) \<Longrightarrow> dropWhile (\<lambda>c. c = slash) (join_slash (y # ys)) = join_slash (y # ys)"
  by (cases y; cases ys) (auto simp: clean_def)

lemma segments_join: "clean xs \<Longrightarrow> segments (join_slash xs) = xs"
proof (induction xs rule: join_slash.induct)
  case 1
  show ?case
    by (simp add: segments_def split_slashes_no_slash)
next
  case (2 x)
  then show ?case
    by (simp add: segments_def split_slashes_no_slash clean_def)
next
  case (3 x y ys)
  then have c: "clean (y # ys)" and x: "slash \<notin> set x" "x \<noteq> []"
    by (auto simp: clean_def)
  have "segments (join_slash (x # y # ys)) = x # segments (join_slash (y # ys))"
    using x by (simp add: segments_def split_slashes_piece join_slash_starts [OF c])
  then show ?case
    using "3.IH" c by simp
qed

lemma segments_join_drop: "segments (join_slash (drop i (segments p))) = drop i (segments p)"
  by (simp add: segments_join clean_drop segments_clean)

lemma segments_only_slashes: "set p \<subseteq> {slash} \<Longrightarrow> segments p = []"
proof (cases p)
  case Nil
  then show ?thesis by (simp add: segments_def split_slashes_no_slash)
next
  case (Cons c cs)
  assume a: "set p \<subseteq> {slash}"
  with Cons have "c = slash" by simp
  have d: "dropWhile (\<lambda>c. c = slash) cs = []"
    using a Cons by (auto simp: dropWhile_eq_Nil_conv)
  have "split_slashes ([] @ slash # cs) = [] # split_slashes (dropWhile (\<lambda>c. c = slash) cs)"
    by (rule split_slashes_piece) simp
  then show ?thesis
    using Cons \<open>c = slash\<close> d by (simp add: segments_def split_slashes_no_slash)
qed

lemma join_slash_snoc_head:
  "join_slash ((a @ slash # b) # ys) = a @ slash # join_slash (b # ys)"
  by (cases ys) auto

lemma foldl_join_slash: "foldl (\<lambda>acc x. acc @ slash # x) x rest = join_slash (x # rest)"
proof (induction rest arbitrary: x)
  case Nil
  show ?case by simp
next
  case (Cons y ys)
  show ?case
    by (simp add: Cons.IH join_slash_snoc_head)
qed

lemma reduce_slash_Inr: "reduce_slash xs = Inr s \<longleftrightarrow> xs \<noteq> [] \<and> s = join_slash xs"
  by (cases xs) (auto simp: reduce_slash_def foldl_join_slash)

lemma reduce_slash_Inl:
  "reduce_slash xs = Inl e \<longleftrightarrow>
   xs = [] \<and> e = TypeError ''Reduce of empty array with no initial value''"
  by (cases xs) (auto simp: reduce_slash_def)

lemma reduce_slash_Nil: "reduce_slash [] = Inl (TypeError ''Reduce of empty array with no initial value'')"
  by (simp add: reduce_slash_def)

lemma embedded_cid_None: "embedded_cid env v = None \<longleftrightarrow> CID_asCID v = None \<and> try_parse env v = None"
  by (simp add: embedded_cid_def split: option.splits)

lemma embedded_cid_Some:
  "embedded_cid env v = Some c \<longleftrightarrow> v = Link c \<or> (\<exists>s. v = Str s \<and> CID_parse env s = Inr c)"
  by (cases v) (auto simp: embedded_cid_def split: option.splits sum.splits)

lemma js_get_not_dead_end: "js_get env node k \<noteq> Inl (DeadEnd e)"
  by (cases node) auto

lemma index_node_not_dead_end: "index_node env node seg \<noteq> Inl (DeadEnd e)"
  by (cases node) (auto simp: index_node_def js_get_not_dead_end split: parsed_key.splits)

lemma walk_cursor:
  "cursor env node pre = Some node' \<Longrightarrow>
   walk env cid d segs opts node i (pre @ todo) = walk env cid d segs opts node' (i + length pre) todo"
proof (induction pre arbitrary: node i)
  case Nil
  then show ?case by simp
next
  case (Cons s pre)
  from Cons.prems obtain v where
    v: "index_node env node s = Inr (Some v)" "embedded_cid env v = None" "cursor env v pre = Some node'"
    by (auto split: sum.splits option.splits)
  then show ?case
    using Cons.IH [OF v(3), of "Suc i"] by (simp add: embedded_cid_None)
qed

lemma walk_jump:
  "index_node env node seg = Inr (Some v) \<Longrightarrow> embedded_cid env v = Some c \<Longrightarrow>
   walk env cid d segs opts node i (seg # todo) = Recurse c (join_slash (drop i segs)) opts"
  by (auto simp: embedded_cid_def split: option.splits)

lemma walk_recurse:
  "walk env cid d segs opts node i todo = Recurse c p o' \<Longrightarrow>
   o' = opts \<and> (\<exists>j. i \<le> j \<and> j < i + length todo \<and> p = join_slash (drop j segs))"
proof (induction todo arbitrary: node i)
  case Nil
  then show ?case by simp
next
  case (Cons s todo)
  show ?case
  proof (cases "index_node env node s")
    case (Inl e)
    with Cons.prems show ?thesis by simp
  next
    case (Inr r)
    show ?thesis
    proof (cases r)
      case None
      with Inr Cons.prems show ?thesis
        by (simp add: dead_end_def split: sum.splits)
    next
      case (Some v)
      show ?thesis
      proof (cases "embedded_cid env v")
        case None
        then have "walk env cid d segs opts v (Suc i) todo = Recurse c p o'"
          using Cons.prems Inr Some by (simp add: embedded_cid_None)
        from Cons.IH [OF this] obtain j where
          "o' = opts" "Suc i \<le> j" "j < Suc i + length todo" "p = join_slash (drop j segs)"
          by blast
        then show ?thesis
          by (intro conjI exI [of _ j]) auto
      next
        case (Some c')
        then have "walk env cid d segs opts node i (s # todo) = Recurse c' (join_slash (drop i segs)) opts"
          using Inr \<open>r = Some v\<close> by (intro walk_jump) auto
        with Cons.prems show ?thesis
          by auto
      qed
    qed
  qed
qed

lemma walk_dead_end:
  "walk env cid d segs opts node i todo = Throw (DeadEnd e) \<Longrightarrow>
   \<exists>k node'. k < length todo \<and> cursor env node (take k todo) = Some node' \<and>
     index_node env node' (todo ! k) = Inr None \<and> take (i + k) segs \<noteq> [] \<and>
     e = \<lparr>de_msg = msg_no_property env cid (join_slash (take (i + k) segs)), de_cid = cid,
          de_at = hd segs, de_remaining = join_slash (tl segs)\<rparr>"
proof (induction todo arbitrary: node i)
  case Nil
  then show ?case by simp
next
  case (Cons s todo)
  show ?case
  proof (cases "index_node env node s")
    case (Inl x)
    with Cons.prems show ?thesis
      by (simp add: index_node_not_dead_end)
  next
    case (Inr r)
    show ?thesis
    proof (cases r)
      case None
      with Inr Cons.prems obtain consumed where
        "reduce_slash (take i segs) = Inr consumed"
        "e = \<lparr>de_msg = msg_no_property env cid consumed, de_cid = cid,
              de_at = hd segs, de_remaining = join_slash (tl segs)\<rparr>"
        by (auto simp: dead_end_def reduce_slash_Inl split: sum.splits)
      then show ?thesis
        using Inr None by (intro exI [of _ 0] exI [of _ node]) (simp add: reduce_slash_Inr)
    next
      case (Some v)
      show ?thesis
      proof (cases "embedded_cid env v")
        case None
        then have "walk env cid d segs opts v (Suc i) todo = Throw (DeadEnd e)"
          using Cons.prems Inr Some by (simp add: embedded_cid_None)
        from Cons.IH [OF this] obtain k node' where
          "k < length todo" "cursor env v (take k todo) = Some node'"
          "index_node env node' (todo ! k) = Inr None" "take (Suc i + k) segs \<noteq> []"
          "e = \<lparr>de_msg = msg_no_property env cid (join_slash (take (Suc i + k) segs)), de_cid = cid,
                de_at = hd segs, de_remaining = join_slash (tl segs)\<rparr>"
          by blast
        then show ?thesis
          using Inr Some None by (intro exI [of _ "Suc k"] exI [of _ node']) simp
      next
        case (Some c')
        then have "walk env cid d segs opts node i (s # todo) = Recurse c' (join_slash (drop i segs)) opts"
          using Inr \<open>r = Some v\<close> by (intro walk_jump) auto
        with Cons.prems show ?thesis
          by simp
      qed
    qed
  qed
qed

section \<open>One activation of resolve\<close>

lemma pb_code_not_key: "pb_code \<noteq> kLibp2pKeyCodec"
  by (simp add: pb_code_def kLibp2pKeyCodec_def)

lemma resolve_step_ipld:
  assumes "code cid \<noteq> kLibp2pKeyCodec" and "code cid \<noteq> pb_code"
    and "block_get env cid = Inr bs"
    and "decode_ipld env (code cid) (hcode (multihash cid)) bs = Inr (dcid, root)"
    and "\<not> followIpld_is_false opts"
    and "segments path = cur # rest"
  shows "resolve_step env cid path opts =
    ([Get cid, Decode (code cid) (hcode (multihash cid)) bs],
     walk env cid \<lparr>b_cid = dcid, b_value = IPLDValue root, b_bytes = bs\<rparr>
       (cur # rest) opts root 0 (cur # rest))"
  using assms by (simp add: resolve_step_def decode_def traverse_def)

lemma resolve_step_pb:
  assumes "code cid = pb_code"
    and "block_get env cid = Inr bs"
    and "decode_pb env (hcode (multihash cid)) bs = Inr (dcid, node)"
    and "segments path = cur # rest"
  shows "resolve_step env cid path opts =
    ([Get cid, Decode (code cid) (hcode (multihash cid)) bs],
     if followPb_is_false opts then Throw (dead_end (msg_pb_disabled env cid) cid cur rest)
     else follow_link env cid node cur rest opts)"
  using assms pb_code_not_key by (simp add: resolve_step_def decode_def traverse_def)

lemma resolve_step_recurse_cases:
  assumes "snd (resolve_step env cid path opts) = Recurse c p o'"
  obtains (link) node cur rest where
      "code cid = pb_code" "segments path = cur # rest"
      "follow_link env cid node cur rest opts = Recurse c p o'"
  | (jump) decoded node cur rest where
      "code cid \<noteq> pb_code" "segments path = cur # rest"
      "walk env cid decoded (cur # rest) opts node 0 (cur # rest) = Recurse c p o'"
  using assms
  by (auto simp: resolve_step_def traverse_def
      split: if_splits sum.splits list.splits dvalue.splits)

text \<open>
  A failed lookup after the first position: the \<open>DeadEnd\<close> carries the first segment, the
  remaining path, the identifier of the block and the consumed segments joined by
  slashes. Conversely, every \<open>DeadEnd\<close> the walk raises is of this form.
\<close>

lemma deeper_failure_is_dead_end:
  assumes "code cid \<noteq> kLibp2pKeyCodec" and "code cid \<noteq> pb_code"
    and "block_get env cid = Inr bs"
    and "decode_ipld env (code cid) (hcode (multihash cid)) bs = Inr (dcid, root)"
    and "\<not> followIpld_is_false opts"
    and "0 < i" and "i < length (segments path)"
    and "cursor env root (take i (segments path)) = Some node"
    and "index_node env node (segments path ! i) = Inr None"
  shows "snd (resolve_step env cid path opts) =
           Throw (DeadEnd \<lparr>de_msg = msg_no_property env cid (join_slash (take i (segments path))),
                           de_cid = cid, de_at = hd (segments path),
                           de_remaining = join_slash (tl (segments path))\<rparr>)"
proof -
  let ?segs = "segments path"
  let ?d = "\<lparr>b_cid = dcid, b_value = IPLDValue root, b_bytes = bs\<rparr>"
  from assms(7) obtain cur rest where segs: "?segs = cur # rest"
    by (cases ?segs) auto
  have split: "?segs = take i ?segs @ (?segs ! i # drop (Suc i) ?segs)"
    using assms(7) by (simp add: id_take_nth_drop [symmetric])
  have ne: "take i ?segs \<noteq> []"
    using assms(6) segs by (cases i) auto
  have "walk env cid ?d ?segs opts root 0 ?segs =
        walk env cid ?d ?segs opts root 0 (take i ?segs @ (?segs ! i # drop (Suc i) ?segs))"
    using split by simp
  also have "\<dots> = walk env cid ?d ?segs opts node (0 + length (take i ?segs))
                    (?segs ! i # drop (Suc i) ?segs)"
    by (rule walk_cursor [OF assms(8)])
  also have "\<dots> = Throw (dead_end (msg_no_property env cid (join_slash (take i ?segs))) cid
                        (hd ?segs) (tl ?segs))"
  proof -
    have "reduce_slash (take i ?segs) = Inr (join_slash (take i ?segs))"
      using ne by (simp add: reduce_slash_Inr)
    then show ?thesis
      using assms(7,9) by (simp add: min_def)
  qed
  finally show ?thesis
    using resolve_step_ipld [OF assms(1-5) segs] segs by (simp add: dead_end_def)
qed

lemma dead_end_of_walk_fields:
  assumes "code cid \<noteq> kLibp2pKeyCodec" and "code cid \<noteq> pb_code"
    and "block_get env cid = Inr bs"
    and "decode_ipld env (code cid) (hcode (multihash cid)) bs = Inr (dcid, root)"
    and "\<not> followIpld_is_false opts"
    and "snd (resolve_step env cid path opts) = Throw (DeadEnd e)"
  shows "de_cid e = cid \<and> de_at e = hd (segments path) \<and>
         de_remaining e = join_slash (tl (segments path)) \<and>
         (\<exists>i node. 0 < i \<and> i < length (segments path) \<and>
            cursor env root (take i (segments path)) = Some node \<and>
            index_node env node (segments path ! i) = Inr None \<and>
            de_msg e = msg_no_property env cid (join_slash (take i (segments path))))"
proof (cases "segments path")
  case Nil
  with assms show ?thesis
    by (simp add: resolve_step_def decode_def traverse_def)
next
  case (Cons cur rest)
  let ?d = "\<lparr>b_cid = dcid, b_value = IPLDValue root, b_bytes = bs\<rparr>"
  have "walk env cid ?d (cur # rest) opts root 0 (cur # rest) = Throw (DeadEnd e)"
    using resolve_step_ipld [OF assms(1-5) Cons] assms(6) by simp
  from walk_dead_end [OF this] obtain k node' where k:
    "k < length (cur # rest)" "cursor env root (take k (cur # rest)) = Some node'"
    "index_node env node' ((cur # rest) ! k) = Inr None" "take (0 + k) (cur # rest) \<noteq> []"
    "e = \<lparr>de_msg = msg_no_property env cid (join_slash (take (0 + k) (cur # rest))), de_cid = cid,
          de_at = hd (cur # rest), de_remaining = join_slash (tl (cur # rest))\<rparr>"
    by blast
  from k(4) have "0 < k" by (cases k) auto
  then show ?thesis
    using k Cons by (auto intro!: exI [of _ k] exI [of _ node'])
qed

section \<open>The last emitted name\<close>

lemma last_emitted_last: "last_emitted xs = (if xs = [] then None else Some (last xs))"
  by (induction xs rule: rev_induct) (simp_all add: last_emitted_def)

section \<open>Claims\<close>

text \<open>
  C1. In a block of a regular codec with a non-empty path, when the value the cursor
  takes after the segment at position \<open>i\<close> is an embedded identifier (a \<open>Link\<close>, or a
  string that \<^verbatim>\<open>CID.parse\<close> accepts), \<open>resolve\<close> stops the walk there and calls itself on
  that identifier, with the segments from position \<open>i\<close> on joined by slashes and with the
  same options. The path of the recursive call splits into the segment at position \<open>i\<close>
  followed by the later ones: the segment just used is applied again to the new block.
\<close>

theorem embedded_identifier_jump:
  assumes "code cid \<noteq> kLibp2pKeyCodec" and "code cid \<noteq> pb_code"
    and "block_get env cid = Inr bs"
    and "decode_ipld env (code cid) (hcode (multihash cid)) bs = Inr (dcid, root)"
    and "\<not> followIpld_is_false opts"
    and "i < length (segments path)"
    and "cursor env root (take i (segments path)) = Some node"
    and "index_node env node (segments path ! i) = Inr (Some v)"
    and "v = Link c \<or> (\<exists>s. v = Str s \<and> CID_parse env s = Inr c)"
  shows "snd (resolve_step env cid path opts) =
           Recurse c (join_slash (drop i (segments path))) opts \<and>
         segments (join_slash (drop i (segments path))) =
           segments path ! i # drop (Suc i) (segments path) \<and>
         resolve (Suc n) env cid path opts =
           (case resolve n env c (join_slash (drop i (segments path))) opts of
              None \<Rightarrow> None
            | Some (cs, r) \<Rightarrow>
                Some ([Get cid, Decode (code cid) (hcode (multihash cid)) bs] @ cs, r))"
proof -
  let ?segs = "segments path"
  let ?d = "\<lparr>b_cid = dcid, b_value = IPLDValue root, b_bytes = bs\<rparr>"
  from assms(6) obtain cur rest where segs: "?segs = cur # rest"
    by (cases ?segs) auto
  have split: "?segs = take i ?segs @ (?segs ! i # drop (Suc i) ?segs)"
    using assms(6) by (simp add: id_take_nth_drop [symmetric])
  have emb: "embedded_cid env v = Some c"
    using assms(9) by (simp add: embedded_cid_Some)
  have "walk env cid ?d ?segs opts root 0 ?segs =
        walk env cid ?d ?segs opts root 0 (take i ?segs @ (?segs ! i # drop (Suc i) ?segs))"
    using split by simp
  also have "\<dots> = walk env cid ?d ?segs opts node (0 + length (take i ?segs))
                    (?segs ! i # drop (Suc i) ?segs)"
    by (rule walk_cursor [OF assms(7)])
  also have "\<dots> = Recurse c (join_slash (drop i ?segs)) opts"
    using assms(6) walk_jump [OF assms(8) emb] by (simp add: min_def)
  finally have w: "walk env cid ?d ?segs opts root 0 ?segs =
                   Recurse c (join_slash (drop i ?segs)) opts" .
  have step: "resolve_step env cid path opts =
      ([Get cid, Decode (code cid) (hcode (multihash cid)) bs],
       Recurse c (join_slash (drop i ?segs)) opts)"
    using resolve_step_ipld [OF assms(1-5) segs] w segs by simp
  have "segments (join_slash (drop i ?segs)) = drop i ?segs"
    by (rule segments_join_drop)
  also have "\<dots> = ?segs ! i # drop (Suc i) ?segs"
    using assms(6) by (simp add: Cons_nth_drop_Suc)
  finally have again: "segments (join_slash (drop i ?segs)) = ?segs ! i # drop (Suc i) ?segs" .
  show ?thesis
    using step again by simp
qed

theorem embedded_identifier_jump_witness:
  "cursor ex_env ex_root_value (take 2 (segments ''/a/b/c/d'')) = Some (Obj [(''c'', Link ex_target)]) \<and>
   snd (resolve_step ex_env ex_root ''/a/b/c/d'' None) = Recurse ex_target ''c/d'' None \<and>
   segments ''c/d'' = [''c'', ''d''] \<and>
   returned_value (resolve 2 ex_env ex_root ''/a/b/c/d'' None) = Some (IPLDValue (Num 9))"
proof -
  have h1: "code ex_root \<noteq> kLibp2pKeyCodec" by code_simp
  have h2: "code ex_root \<noteq> pb_code" by code_simp
  have h3: "block_get ex_env ex_root = Inr [1]" by code_simp
  have h4: "decode_ipld ex_env (code ex_root) (hcode (multihash ex_root)) [1] = Inr (ex_root, ex_root_value)"
    by code_simp
  have h5: "\<not> followIpld_is_false None" by code_simp
  have h6: "2 < length (segments ''/a/b/c/d'')" by code_simp
  have h7: "cursor ex_env ex_root_value (take 2 (segments ''/a/b/c/d'')) = Some (Obj [(''c'', Link ex_target)])"
    by code_simp
  have h8: "index_node ex_env (Obj [(''c'', Link ex_target)]) (segments ''/a/b/c/d'' ! 2) = Inr (Some (Link ex_target))"
    by code_simp
  have h9: "Link ex_target = Link ex_target \<or> (\<exists>s. Link ex_target = Str s \<and> CID_parse ex_env s = Inr ex_target)"
    by simp
  have j: "join_slash (drop 2 (segments ''/a/b/c/d'')) = ''c/d''" by code_simp
  have s: "segments ''c/d'' = [''c'', ''d'']" by code_simp
  have r: "returned_value (resolve 2 ex_env ex_root ''/a/b/c/d'' None) = Some (IPLDValue (Num 9))"
    by code_simp
  from embedded_identifier_jump [OF h1 h2 h3 h4 h5 h6 h7 h8 h9, of 1]
  show ?thesis
    using h7 j s r by simp
qed

text \<open>
  C2. The block \<open>ex_root\<close> decodes to a map whose entry \<^verbatim>\<open>link\<close> is the text of the identifier
  \<open>ex_target\<close>. Resolving \<^verbatim>\<open>/link/extra\<close> on it detects the identifier at \<^verbatim>\<open>link\<close>; the claim
  expects the recursive call to carry the path \<^verbatim>\<open>/extra\<close>. What \<open>resolve\<close> passes on is
  \<^verbatim>\<open>link/extra\<close>: two segments, not one, so the run returns the entry \<^verbatim>\<open>link/extra\<close> of the
  target block (7) and not its entry \<^verbatim>\<open>extra\<close> (5).
\<close>

theorem link_extra_recursion_path:
  "snd (resolve_step ex_env ex_root ''/link/extra'' None) = Recurse ex_target ''link/extra'' None \<and>
   segments ''link/extra'' = [''link'', ''extra''] \<and>
   segments ''/extra'' = [''extra''] \<and>
   returned_value (resolve 2 ex_env ex_root ''/link/extra'' None) = Some (IPLDValue (Num 7)) \<and>
   returned_value (resolve 1 ex_env ex_target ''/extra'' None) = Some (IPLDValue (Num 5))"
  by code_simp

text \<open>
  C3. The claim that every continuing step passes on a segment list exactly one shorter
  than the one it received fails: in \<open>ex_root\<close> the identifier sits under \<^verbatim>\<open>a/b/c\<close>, and
  resolving \<^verbatim>\<open>/a/b/c/d\<close> (four segments) calls \<open>resolve\<close> with \<^verbatim>\<open>c/d\<close> (two segments).
\<close>

theorem deep_jump_consumes_two_segments:
  "snd (resolve_step ex_env ex_root ''/a/b/c/d'' None) = Recurse ex_target ''c/d'' None \<and>
   length (segments ''/a/b/c/d'') = 4 \<and> length (segments ''c/d'') = 2"
  by code_simp

text \<open>
  C3, amended. Whenever an activation of \<open>resolve\<close> ends in a recursive call, the call
  carries the same options and a path whose segments are a suffix of the segments
  received, so never more of them. When the block is a DAG-PB node (a link hop), the
  segments passed on are exactly the received ones without the first: one segment is
  consumed.
\<close>

theorem recursion_passes_suffix:
  assumes "snd (resolve_step env cid path opts) = Recurse c p o'"
  shows "o' = opts \<and> suffix (segments p) (segments path) \<and>
         (code cid = pb_code \<longrightarrow>
            segments p = tl (segments path) \<and> length (segments p) + 1 = length (segments path))"
  using assms
proof (cases rule: resolve_step_recurse_cases)
  case (link node cur rest)
  have "clean (cur # rest)"
    using segments_clean [of path] link(2) by simp
  then have "clean rest"
    by (simp add: clean_def)
  from link(3) have "o' = opts" "p = join_slash rest"
    by (auto simp: follow_link_def dead_end_def split: option.splits)
  then have "segments p = rest"
    using \<open>clean rest\<close> by (simp add: segments_join)
  then show ?thesis
    using link(1,2) \<open>o' = opts\<close> by (simp add: suffix_Cons)
next
  case (jump decoded node cur rest)
  from walk_recurse [OF jump(3)] obtain j where
    j: "o' = opts" "p = join_slash (drop j (cur # rest))"
    by blast
  have "segments p = drop j (segments path)"
    using j(2) jump(2) segments_join_drop [of j path] by simp
  then show ?thesis
    using jump(1) j(1) by (simp add: suffix_drop)
qed

theorem recursion_passes_suffix_witness:
  "snd (resolve_step ex_env ex_dir ''/file.json/extra'' None) = Recurse ex_target ''extra'' None \<and>
   suffix (segments ''extra'') (segments ''/file.json/extra'') \<and>
   segments ''extra'' = tl (segments ''/file.json/extra'') \<and>
   length (segments ''extra'') + 1 = length (segments ''/file.json/extra'')"
proof -
  have h: "snd (resolve_step ex_env ex_dir ''/file.json/extra'' None) = Recurse ex_target ''extra'' None"
    by code_simp
  have c: "code ex_dir = pb_code"
    by code_simp
  from recursion_passes_suffix [OF h] c have
    "suffix (segments ''extra'') (segments ''/file.json/extra'') \<and>
     segments ''extra'' = tl (segments ''/file.json/extra'') \<and>
     length (segments ''extra'') + 1 = length (segments ''/file.json/extra'')"
    by blast
  with h show ?thesis
    by blast
qed

text \<open>
  C4. For a DAG-PB block fetched and decoded with \<open>followPb\<close> not set to \<open>false\<close> and a path
  of at least one segment \<open>cur\<close>: if some link is named \<open>cur\<close>, \<open>resolve\<close> calls itself on the
  target of the first such link in the order of \<open>Links\<close>, with the remaining segments
  joined by slashes (which split into those segments again) and the same options; if no
  link is named \<open>cur\<close>, it throws a \<open>DeadEnd\<close> whose \<open>at\<close> is \<open>cur\<close> and whose \<open>remaining\<close> is the
  remaining segments joined by slashes. Both are stated for the activation and for
  \<open>resolve\<close> itself: the run is the fetch and the decode followed by the run on the link
  target, or it ends with the \<open>DeadEnd\<close> after the fetch and the decode.
\<close>

theorem linked_file_first_segment:
  assumes "code cid = pb_code"
    and "block_get env cid = Inr bs"
    and "decode_pb env (hcode (multihash cid)) bs = Inr (dcid, node)"
    and "segments path = cur # rest"
    and "\<not> followPb_is_false opts"
  shows "if \<exists>l \<in> set (Links node). Name l = Some cur
         then \<exists>i < length (Links node).
                Name (Links node ! i) = Some cur \<and>
                (\<forall>j < i. Name (Links node ! j) \<noteq> Some cur) \<and>
                snd (resolve_step env cid path opts) =
                  Recurse (Hash (Links node ! i)) (join_slash rest) opts \<and>
                segments (join_slash rest) = rest \<and>
                resolve (Suc n) env cid path opts =
                  (case resolve n env (Hash (Links node ! i)) (join_slash rest) opts of
                     None \<Rightarrow> None
                   | Some (cs, r) \<Rightarrow>
                       Some ([Get cid, Decode (code cid) (hcode (multihash cid)) bs] @ cs, r))
         else snd (resolve_step env cid path opts) =
                Throw (DeadEnd \<lparr>de_msg = msg_no_link env cid cur, de_cid = cid, de_at = cur,
                                de_remaining = join_slash rest\<rparr>) \<and>
              resolve (Suc n) env cid path opts =
                Some ([Get cid, Decode (code cid) (hcode (multihash cid)) bs],
                      Inl (DeadEnd \<lparr>de_msg = msg_no_link env cid cur, de_cid = cid, de_at = cur,
                                      de_remaining = join_slash rest\<rparr>))"
proof -
  have step: "resolve_step env cid path opts =
      ([Get cid, Decode (code cid) (hcode (multihash cid)) bs],
       follow_link env cid node cur rest opts)"
    using resolve_step_pb [OF assms(1-4), of opts] assms(5) by simp
  have "clean (cur # rest)"
    using segments_clean [of path] assms(4) by simp
  then have rest: "segments (join_slash rest) = rest"
    by (simp add: segments_join clean_def)
  show ?thesis
  proof (cases "find (\<lambda>n. Name n = Some cur) (Links node)")
    case None
    then have "\<not> (\<exists>l \<in> set (Links node). Name l = Some cur)"
      by (simp add: find_None_iff)
    moreover have "follow_link env cid node cur rest opts =
        Throw (DeadEnd \<lparr>de_msg = msg_no_link env cid cur, de_cid = cid, de_at = cur,
                        de_remaining = join_slash rest\<rparr>)"
      using None by (simp add: follow_link_def dead_end_def)
    ultimately show ?thesis
      using step by simp
  next
    case (Some child)
    then obtain i where i: "i < length (Links node)" "Name (Links node ! i) = Some cur"
      "child = Links node ! i" "\<forall>j < i. Name (Links node ! j) \<noteq> Some cur"
      by (auto simp: find_Some_iff)
    then have ex: "\<exists>l \<in> set (Links node). Name l = Some cur"
      by (auto intro: bexI [of _ "Links node ! i"])
    have fl: "follow_link env cid node cur rest opts =
        Recurse (Hash (Links node ! i)) (join_slash rest) opts"
      using Some i(3) by (simp add: follow_link_def)
    have "snd (resolve_step env cid path opts) =
        Recurse (Hash (Links node ! i)) (join_slash rest) opts"
      using step fl by simp
    moreover have "resolve (Suc n) env cid path opts =
        (case resolve n env (Hash (Links node ! i)) (join_slash rest) opts of
           None \<Rightarrow> None
         | Some (cs, r) \<Rightarrow>
             Some ([Get cid, Decode (code cid) (hcode (multihash cid)) bs] @ cs, r))"
      using step fl by simp
    ultimately show ?thesis
      using ex i rest by auto
  qed
qed

theorem linked_file_first_segment_witness:
  "(\<exists>l \<in> set (Links ex_dir_node). Name l = Some ''file.json'') \<and>
   (\<exists>i < length (Links ex_dir_node).
      Name (Links ex_dir_node ! i) = Some ''file.json'' \<and>
      (\<forall>j < i. Name (Links ex_dir_node ! j) \<noteq> Some ''file.json'') \<and>
      snd (resolve_step ex_env ex_dir ''/file.json/extra'' None) =
        Recurse (Hash (Links ex_dir_node ! i)) (join_slash [''extra'']) None \<and>
      segments (join_slash [''extra'']) = [''extra''] \<and>
      resolve 2 ex_env ex_dir ''/file.json/extra'' None =
        (case resolve 1 ex_env (Hash (Links ex_dir_node ! i)) (join_slash [''extra'']) None of
           None \<Rightarrow> None
         | Some (cs, r) \<Rightarrow>
             Some ([Get ex_dir, Decode (code ex_dir) (hcode (multihash ex_dir)) [3]] @ cs, r))) \<and>
   returned_value (resolve 2 ex_env ex_dir ''/file.json/extra'' None) = Some (IPLDValue (Num 5)) \<and>
   resolve 1 ex_env ex_dir ''/nope/extra'' None =
     Some ([Get ex_dir, Decode (code ex_dir) (hcode (multihash ex_dir)) [3]],
           Inl (DeadEnd \<lparr>de_msg = msg_no_link ex_env ex_dir ''nope'', de_cid = ex_dir,
                           de_at = ''nope'', de_remaining = join_slash [''extra'']\<rparr>))"
proof -
  have h1: "code ex_dir = pb_code" by code_simp
  have h2: "block_get ex_env ex_dir = Inr [3]" by code_simp
  have h3: "decode_pb ex_env (hcode (multihash ex_dir)) [3] = Inr (ex_dir, ex_dir_node)" by code_simp
  have h4: "segments ''/file.json/extra'' = ''file.json'' # [''extra'']" by code_simp
  have h4': "segments ''/nope/extra'' = ''nope'' # [''extra'']" by code_simp
  have h5: "\<not> followPb_is_false None" by code_simp
  have ex: "\<exists>l \<in> set (Links ex_dir_node). Name l = Some ''file.json''"
    by (simp add: ex_dir_node_def)
  have nex: "\<not> (\<exists>l \<in> set (Links ex_dir_node). Name l = Some ''nope'')"
    by (simp add: ex_dir_node_def)
  have v: "returned_value (resolve 2 ex_env ex_dir ''/file.json/extra'' None) = Some (IPLDValue (Num 5))"
    by code_simp
  have found: "\<exists>i < length (Links ex_dir_node).
      Name (Links ex_dir_node ! i) = Some ''file.json'' \<and>
      (\<forall>j < i. Name (Links ex_dir_node ! j) \<noteq> Some ''file.json'') \<and>
      snd (resolve_step ex_env ex_dir ''/file.json/extra'' None) =
        Recurse (Hash (Links ex_dir_node ! i)) (join_slash [''extra'']) None \<and>
      segments (join_slash [''extra'']) = [''extra''] \<and>
      resolve 2 ex_env ex_dir ''/file.json/extra'' None =
        (case resolve 1 ex_env (Hash (Links ex_dir_node ! i)) (join_slash [''extra'']) None of
           None \<Rightarrow> None
         | Some (cs, r) \<Rightarrow>
             Some ([Get ex_dir, Decode (code ex_dir) (hcode (multihash ex_dir)) [3]] @ cs, r))"
    using linked_file_first_segment [OF h1 h2 h3 h4 h5, of 1] ex
    by (simp only: if_True numeral_2_eq_2 One_nat_def)
  have missing: "resolve 1 ex_env ex_dir ''/nope/extra'' None =
     Some ([Get ex_dir, Decode (code ex_dir) (hcode (multihash ex_dir)) [3]],
           Inl (DeadEnd \<lparr>de_msg = msg_no_link ex_env ex_dir ''nope'', de_cid = ex_dir,
                           de_at = ''nope'', de_remaining = join_slash [''extra'']\<rparr>))"
    using linked_file_first_segment [OF h1 h2 h3 h4' h5, of 0] nex
    by (simp only: if_False One_nat_def)
  from ex found v missing show ?thesis
    by blast
qed

text \<open>
  C5. The claim is that a segment that cannot be resolved against the cursor always
  gives a \<open>DeadEnd\<close>, also at the first segment. In the code, when the lookup of the first
  segment of a regular block yields \<^verbatim>\<open>undefined\<close>, building the message of the error calls
  \<^verbatim>\<open>reduce\<close> on the empty list of consumed segments, and \<open>resolve\<close> ends with that
  \<open>TypeError\<close>; no \<open>DeadEnd\<close> is constructed.
\<close>

theorem first_segment_failure_is_type_error:
  assumes "code cid \<noteq> kLibp2pKeyCodec" and "code cid \<noteq> pb_code"
    and "block_get env cid = Inr bs"
    and "decode_ipld env (code cid) (hcode (multihash cid)) bs = Inr (dcid, root)"
    and "\<not> followIpld_is_false opts"
    and "segments path = cur # rest"
    and "index_node env root cur = Inr None"
  shows "resolve (Suc n) env cid path opts =
           Some ([Get cid, Decode (code cid) (hcode (multihash cid)) bs],
                 Inl (TypeError ''Reduce of empty array with no initial value''))"
  using resolve_step_ipld [OF assms(1-6)] assms(7)
  by (simp add: reduce_slash_Nil)

theorem first_segment_failure_is_type_error_witness:
  "segments ''/b'' = [''b''] \<and>
   index_node ex_env ex_root_value ''b'' = Inr None \<and>
   resolve 1 ex_env ex_root ''/b'' None =
     Some ([Get ex_root, Decode (code ex_root) (hcode (multihash ex_root)) [1]],
           Inl (TypeError ''Reduce of empty array with no initial value''))"
proof -
  have h1: "code ex_root \<noteq> kLibp2pKeyCodec" by code_simp
  have h2: "code ex_root \<noteq> pb_code" by code_simp
  have h3: "block_get ex_env ex_root = Inr [1]" by code_simp
  have h4: "decode_ipld ex_env (code ex_root) (hcode (multihash ex_root)) [1] = Inr (ex_root, ex_root_value)"
    by code_simp
  have h5: "\<not> followIpld_is_false None" by code_simp
  have h6: "segments ''/b'' = ''b'' # []" by code_simp
  have h7: "index_node ex_env ex_root_value ''b'' = Inr None" by code_simp
  from first_segment_failure_is_type_error [OF h1 h2 h3 h4 h5 h6 h7, of 0]
  show ?thesis
    using h6 h7 by simp
qed

text \<open>
  C6. The claim is that a failure of the walk at any position raises a \<open>DeadEnd\<close> with
  the first segment in \<open>at\<close>, the remaining path in \<open>remaining\<close>, the identifier of the block
  in \<open>cid\<close> and a message naming the consumed path. The lemmas
  \<open>deeper_failure_is_dead_end\<close> and \<open>dead_end_of_walk_fields\<close> show this for a lookup that
  yields \<^verbatim>\<open>undefined\<close> after the first position. At the first position it does not hold:
  resolving \<^verbatim>\<open>/missing/rest\<close> on \<open>ex_root\<close>, whose map has no entry \<^verbatim>\<open>missing\<close>, ends with
  a \<open>TypeError\<close> and no error carrying \<^verbatim>\<open>missing\<close> and \<^verbatim>\<open>rest\<close>.
\<close>

theorem first_segment_failure_raises_no_dead_end:
  "segments ''/missing/rest'' = [''missing'', ''rest''] \<and>
   index_node ex_env ex_root_value ''missing'' = Inr None \<and>
   resolve 1 ex_env ex_root ''/missing/rest'' None =
     Some ([Get ex_root, Decode 0x0129 0x12 [1]],
           Inl (TypeError ''Reduce of empty array with no initial value''))"
  by code_simp

text \<open>
  C7. For a DAG-PB block fetched and decoded, a path of at least one segment and options
  with \<open>followPb\<close> set to \<open>false\<close>, \<open>resolve\<close> ends in this activation, after the one fetch and
  the one decode, with a \<open>DeadEnd\<close> whose \<open>at\<close> is the first segment and whose \<open>remaining\<close>
  is the later segments joined by slashes, whatever links the node has.
\<close>

theorem followPb_false_is_dead_end:
  assumes "code cid = pb_code"
    and "block_get env cid = Inr bs"
    and "decode_pb env (hcode (multihash cid)) bs = Inr (dcid, node)"
    and "segments path = cur # rest"
    and "opts = Some o'" and "followPb o' = Some False"
  shows "resolve (Suc n) env cid path opts =
           Some ([Get cid, Decode (code cid) (hcode (multihash cid)) bs],
                 Inl (DeadEnd \<lparr>de_msg = msg_pb_disabled env cid, de_cid = cid, de_at = cur,
                                 de_remaining = join_slash rest\<rparr>))"
  using resolve_step_pb [OF assms(1-4), of opts] assms(5,6)
  by (simp add: followPb_is_false_def dead_end_def)

theorem followPb_false_is_dead_end_witness:
  "(\<exists>l \<in> set (Links ex_dir_node). Name l = Some ''file.json'') \<and>
   resolve 1 ex_env ex_dir ''/file.json/extra'' (Some \<lparr>followPb = Some False, followIpld = None\<rparr>) =
     Some ([Get ex_dir, Decode (code ex_dir) (hcode (multihash ex_dir)) [3]],
           Inl (DeadEnd \<lparr>de_msg = msg_pb_disabled ex_env ex_dir, de_cid = ex_dir,
                           de_at = ''file.json'', de_remaining = ''extra''\<rparr>))"
proof -
  have h1: "code ex_dir = pb_code" by code_simp
  have h2: "block_get ex_env ex_dir = Inr [3]" by code_simp
  have h3: "decode_pb ex_env (hcode (multihash ex_dir)) [3] = Inr (ex_dir, ex_dir_node)" by code_simp
  have h4: "segments ''/file.json/extra'' = ''file.json'' # [''extra'']" by code_simp
  have h5: "Some \<lparr>followPb = Some False, followIpld = None\<rparr> = Some \<lparr>followPb = Some False, followIpld = None\<rparr>"
    by simp
  have h6: "followPb \<lparr>followPb = Some False, followIpld = None\<rparr> = Some False" by simp
  have ex: "\<exists>l \<in> set (Links ex_dir_node). Name l = Some ''file.json''"
    by (simp add: ex_dir_node_def)
  from followPb_false_is_dead_end [OF h1 h2 h3 h4 h5 h6, of 0] ex show ?thesis
    by simp
qed

text \<open>
  C8. For an identifier whose codec is not \<^verbatim>\<open>libp2p-key\<close> and a path that splits into no
  segment, once the block is fetched and decoded \<open>resolve\<close> returns in this activation the
  decoded value, the identifier the registry derived and the decoded block, whatever the
  value is.
\<close>

theorem empty_path_returns_root:
  assumes "code cid \<noteq> kLibp2pKeyCodec"
    and "segments path = []"
    and "block_get env cid = Inr bs"
    and "decode env (code cid) (hcode (multihash cid)) bs = Inr decoded"
  shows "resolve (Suc n) env cid path opts =
           Some ([Get cid, Decode (code cid) (hcode (multihash cid)) bs],
                 Inr \<lparr>r_value = b_value decoded, r_cid = b_cid decoded, r_block = decoded\<rparr>)"
  using assms by (simp add: resolve_step_def traverse_def)

theorem empty_path_returns_root_witness:
  "segments ''///'' = [] \<and>
   resolve 1 ex_env ex_dir ''///'' None =
     Some ([Get ex_dir, Decode (code ex_dir) (hcode (multihash ex_dir)) [3]],
           Inr \<lparr>r_value = PBValue ex_dir_node, r_cid = ex_dir,
                 r_block = \<lparr>b_cid = ex_dir, b_value = PBValue ex_dir_node, b_bytes = [3]\<rparr>\<rparr>)"
proof -
  have h1: "code ex_dir \<noteq> kLibp2pKeyCodec" by code_simp
  have h2: "segments ''///'' = []" by code_simp
  have h3: "block_get ex_env ex_dir = Inr [3]" by code_simp
  have h4: "decode ex_env (code ex_dir) (hcode (multihash ex_dir)) [3] =
            Inr \<lparr>b_cid = ex_dir, b_value = PBValue ex_dir_node, b_bytes = [3]\<rparr>"
    by code_simp
  from empty_path_returns_root [OF h1 h2 h3 h4, of 0 None] h2 show ?thesis
    by simp
qed

text \<open>
  C9. The claim that \<open>resolveIpns\<close> fails when the input name cannot be parsed does not
  hold: the name \<^verbatim>\<open>ipfs.io\<close> is no identifier for \<^verbatim>\<open>CID.parse\<close>, and \<open>resolveIpns\<close> resolves it.
\<close>

theorem unparseable_name_resolves:
  "CID_parse ex_env ''ipfs.io'' = Inl (Failure ''invalid CID'') \<and>
   resolveIpns ex_env (Inr ''ipfs.io'') None = Inr ex_target"
  by code_simp

text \<open>
  C9, amended. \<open>resolveIpns\<close> hands the marker \<^verbatim>\<open>/ipns/\<close> followed by the text of the name to
  the Name Resolver and does not parse the name itself. If the Name Resolver fails, that
  error is the result. Otherwise, if nothing was emitted the result is a \<open>TypeError\<close>; else
  it is what \<^verbatim>\<open>CID.parse\<close> gives (an identifier or its error) for the last emitted string
  without its first six characters, earlier emissions being ignored. In particular, when
  the last string is the marker followed by \<open>ident\<close>, the result is \<^verbatim>\<open>CID.parse\<close> of \<open>ident\<close>.
\<close>

theorem resolveIpns_last_emitted:
  assumes "name_resolve env (''/ipns/'' @ (case name of Inr s \<Rightarrow> s | Inl c \<Rightarrow> CID_toString env c))
             True timeout = (emitted, failure)"
  shows "resolveIpns env name timeout =
           (case failure of
              Some e \<Rightarrow> Inl e
            | None \<Rightarrow>
                if emitted = [] then Inl (TypeError msg_null_slice)
                else CID_parse env (drop 6 (last emitted))) \<and>
         (failure = None \<and> emitted \<noteq> [] \<and> last emitted = ''/ipns/'' @ ident \<longrightarrow>
            resolveIpns env name timeout = CID_parse env ident)"
  using assms
  by (auto simp: resolveIpns_def last_emitted_last split: option.splits)

theorem resolveIpns_last_emitted_witness:
  "name_resolve ex_env ''/ipns/ipfs.io'' True None =
     ([''/ipns/intermediate'', ''/ipns/bafytarget''], None) \<and>
   resolveIpns ex_env (Inr ''ipfs.io'') None = CID_parse ex_env ''bafytarget'' \<and>
   CID_parse ex_env ''bafytarget'' = Inr ex_target"
proof -
  have h: "name_resolve ex_env (''/ipns/'' @ (case Inr ''ipfs.io'' of Inr s \<Rightarrow> s | Inl c \<Rightarrow> CID_toString ex_env c))
             True None = ([''/ipns/intermediate'', ''/ipns/bafytarget''], None)"
    by code_simp
  have p: "CID_parse ex_env ''bafytarget'' = Inr ex_target"
    by code_simp
  from resolveIpns_last_emitted [OF h, of "''bafytarget''"] h p show ?thesis
    by simp
qed

text \<open>
  C10. When the codec of the identifier is \<^verbatim>\<open>libp2p-key\<close> (0x72), \<open>resolve\<close> ends with the
  \<open>TypeError\<close> and has made no call: neither \<^verbatim>\<open>block.get\<close> nor \<^verbatim>\<open>decoder.decode\<close>.
\<close>

theorem libp2p_key_rejected_before_any_call:
  assumes "code cid = kLibp2pKeyCodec"
  shows "resolve_step env cid path opts = ([], Throw (TypeError msg_libp2p_key)) \<and>
         resolve (Suc n) env cid path opts = Some ([], Inl (TypeError msg_libp2p_key))"
  using assms by (simp add: resolve_step_def)

theorem libp2p_key_rejected_before_any_call_witness:
  "code ex_key = kLibp2pKeyCodec \<and>
   resolve_step ex_env ex_key ''/a'' None = ([], Throw (TypeError msg_libp2p_key)) \<and>
   resolve 1 ex_env ex_key ''/a'' None = Some ([], Inl (TypeError msg_libp2p_key))"
proof -
  have h: "code ex_key = kLibp2pKeyCodec" by code_simp
  from libp2p_key_rejected_before_any_call [OF h, of ex_env "''/a''" None 0] h show ?thesis
    by simp
qed

end
